theory Spec2Isabelle
  imports Main "HOL-Library.Monad_Syntax" "HOL-Library.Char_ord" "HOL-Library.List_Lexorder"
begin

section \<open>Strings and characters\<close>

text \<open>
  A Python \<open>str\<close> is modelled as a \<^typ>\<open>string\<close>, each \<^typ>\<open>char\<close> read as one code
  point in the range U+0000 to U+00FF. The character tests below are those of Python's
  \<open>str\<close> methods (and of \<open>\s\<close> in a \<open>str\<close> pattern of \<open>re\<close>) on that range.
\<close>

definition LF :: char where
  "LF = CHR 0x0A"

definition CR :: char where
  "CR = CHR 0x0D"

definition code :: "char \<Rightarrow> nat" where
  "code c = of_char c"

definition isspace :: "char \<Rightarrow> bool" where
  \<comment> \<open>\<open>str.isspace\<close>: TAB, LF, VT, FF, CR, FS, GS, RS, US, SPACE, NEL, NBSP\<close>
  "isspace c = (let n = code c in
     (9 \<le> n \<and> n \<le> 13) \<or> (28 \<le> n \<and> n \<le> 32) \<or> n = 133 \<or> n = 160)"

definition isupper :: "char \<Rightarrow> bool" where
  \<comment> \<open>\<open>str.isupper\<close> on one character: A-Z and the capital letters U+00C0-U+00DE but U+00D7\<close>
  "isupper c = (let n = code c in
     (65 \<le> n \<and> n \<le> 90) \<or> (192 \<le> n \<and> n \<le> 222 \<and> n \<noteq> 215))"

definition isalpha :: "char \<Rightarrow> bool" where
  \<comment> \<open>\<open>str.isalpha\<close> on one character\<close>
  "isalpha c = (let n = code c in
     (65 \<le> n \<and> n \<le> 90) \<or> (97 \<le> n \<and> n \<le> 122) \<or> n = 170 \<or> n = 181 \<or> n = 186 \<or>
     (192 \<le> n \<and> n \<le> 255 \<and> n \<noteq> 215 \<and> n \<noteq> 247))"

definition lower_char :: "char \<Rightarrow> char" where
  "lower_char c = (if isupper c then char_of (code c + 32) else c)"

definition lower :: "string \<Rightarrow> string" where
  \<comment> \<open>\<open>str.lower\<close>\<close>
  "lower s = map lower_char s"

definition lstrip :: "string \<Rightarrow> string" where
  "lstrip s = dropWhile isspace s"

definition rstrip :: "string \<Rightarrow> string" where
  "rstrip s = rev (dropWhile isspace (rev s))"

definition strip :: "string \<Rightarrow> string" where
  \<comment> \<open>\<open>str.strip()\<close> with no argument\<close>
  "strip s = rstrip (lstrip s)"

definition rstrip_newline :: "string \<Rightarrow> string" where
  \<comment> \<open>\<open>raw.rstrip("\n")\<close>\<close>
  "rstrip_newline s = rev (dropWhile (\<lambda>c. c = LF) (rev s))"

fun join :: "string \<Rightarrow> string list \<Rightarrow> string" where
  "join sep [] = []"
| "join sep [x] = x"
| "join sep (x # y # ys) = x @ sep @ join sep (y # ys)"

definition is_linebreak :: "char \<Rightarrow> bool" where
  \<comment> \<open>the line boundaries of \<open>str.splitlines\<close> other than CR LF: LF, VT, FF, CR, FS, GS, RS, NEL\<close>
  "is_linebreak c = (let n = code c in (10 \<le> n \<and> n \<le> 13) \<or> (28 \<le> n \<and> n \<le> 30) \<or> n = 133)"

fun splitlines_from :: "string \<Rightarrow> string \<Rightarrow> string list" where
  "splitlines_from cur [] = (if cur = [] then [] else [cur])"
| "splitlines_from cur [c] = (if is_linebreak c then [cur] else [cur @ [c]])"
| "splitlines_from cur (c # d # cs) =
     (if c = CR \<and> d = LF then cur # splitlines_from [] cs
      else if is_linebreak c then cur # splitlines_from [] (d # cs)
      else splitlines_from (cur @ [c]) (d # cs))"

definition splitlines :: "string \<Rightarrow> string list" where
  \<comment> \<open>\<open>str.splitlines()\<close>: the lines without their line breaks; no empty last line\<close>
  "splitlines text = splitlines_from [] text"

section \<open>Regular expressions\<close>

text \<open>
  A pattern is a backtracking matcher: from a cursor (the text already passed, reversed,
  and the text ahead) it returns the cursors at which a match can end, in the order in
  which \<open>re\<close> tries them (an earlier alternative first, a greedy repetition longest
  first). The first cursor is the match \<open>re\<close> reports.
\<close>

type_synonym cursor = "string \<times> string"
type_synonym matcher = "cursor \<Rightarrow> cursor list"

definition re_bol :: matcher where
  \<comment> \<open>\<open>^\<close> without \<open>re.MULTILINE\<close>\<close>
  "re_bol = (\<lambda>(b, a). if b = [] then [(b, a)] else [])"

definition re_eol :: matcher where
  \<comment> \<open>\<open>$\<close> without \<open>re.MULTILINE\<close>: the end, or just before a newline that ends the text\<close>
  "re_eol = (\<lambda>(b, a). if a = [] \<or> a = [LF] then [(b, a)] else [])"

definition re_cls :: "(char \<Rightarrow> bool) \<Rightarrow> matcher" where
  "re_cls p = (\<lambda>(b, a). case a of [] \<Rightarrow> [] | c # cs \<Rightarrow> if p c then [(c # b, cs)] else [])"

fun re_star :: "(char \<Rightarrow> bool) \<Rightarrow> matcher" where
  "re_star p (b, []) = [(b, [])]"
| "re_star p (b, c # cs) = (if p c then re_star p (c # b, cs) @ [(b, c # cs)] else [(b, c # cs)])"

definition re_seq :: "matcher \<Rightarrow> matcher \<Rightarrow> matcher" where
  "re_seq m1 m2 = (\<lambda>s. concat (map m2 (m1 s)))"

definition re_alt :: "matcher \<Rightarrow> matcher \<Rightarrow> matcher" where
  "re_alt m1 m2 = (\<lambda>s. m1 s @ m2 s)"

definition re_opt :: "matcher \<Rightarrow> matcher" where
  "re_opt m = (\<lambda>s. m s @ [s])"

definition re_plus :: "(char \<Rightarrow> bool) \<Rightarrow> matcher" where
  "re_plus p = re_seq (re_cls p) (re_star p)"

definition re_chr :: "char \<Rightarrow> matcher" where
  "re_chr c = re_cls (\<lambda>x. x = c)"

fun re_str :: "string \<Rightarrow> matcher" where
  "re_str [] = (\<lambda>s. [s])"
| "re_str (c # cs) = re_seq (re_chr c) (re_str cs)"

fun re_str_ci :: "string \<Rightarrow> matcher" where
  \<comment> \<open>a literal under \<open>re.IGNORECASE\<close>\<close>
  "re_str_ci [] = (\<lambda>s. [s])"
| "re_str_ci (c # cs) = re_seq (re_cls (\<lambda>x. lower_char x = lower_char c)) (re_str_ci cs)"

definition re_match :: "matcher \<Rightarrow> string \<Rightarrow> bool" where
  \<comment> \<open>\<open>pattern.match(s) is not None\<close>\<close>
  "re_match m s = (m ([], s) \<noteq> [])"

fun re_sub_from :: "matcher \<Rightarrow> string \<Rightarrow> string \<Rightarrow> nat \<Rightarrow> string" where
  \<comment> \<open>the scan of \<open>re.sub(pattern, '', s)\<close>; \<open>k\<close> characters of the last match are still to skip\<close>
  "re_sub_from m b [] k = []"
| "re_sub_from m b (c # cs) k =
     (if 0 < k then re_sub_from m (c # b) cs (k - 1)
      else case m (b, c # cs) of
             [] \<Rightarrow> c # re_sub_from m (c # b) cs 0
           | (b', a') # _ \<Rightarrow>
               (let n = length (c # cs) - length a'
                in if n = 0 then c # re_sub_from m (c # b) cs 0
                   else re_sub_from m (c # b) cs (n - 1)))"

definition re_sub_empty :: "matcher \<Rightarrow> string \<Rightarrow> string" where
  \<comment> \<open>\<open>re.sub(pattern, '', s)\<close>\<close>
  "re_sub_empty m s = re_sub_from m [] s 0"

fun re_split_first_from :: "matcher \<Rightarrow> string \<Rightarrow> string \<Rightarrow> string" where
  "re_split_first_from m b [] = []"
| "re_split_first_from m b (c # cs) =
     (if m (b, c # cs) \<noteq> [] then [] else c # re_split_first_from m (c # b) cs)"

definition re_split_first :: "matcher \<Rightarrow> string \<Rightarrow> string" where
  \<comment> \<open>\<open>re.split(pattern, s)[0]\<close>: the text before the leftmost match, all of it without one\<close>
  "re_split_first m s = re_split_first_from m [] s"

section \<open>Line classifier\<close>

definition scene_type :: matcher where
  \<comment> \<open>\<open>(INT|EXT|INT/EXT|I/E)\<close> under \<open>re.IGNORECASE\<close>\<close>
  "scene_type = re_alt (re_str_ci ''INT'') (re_alt (re_str_ci ''EXT'')
     (re_alt (re_str_ci ''INT/EXT'') (re_str_ci ''I/E'')))"

definition SCENE_HEADING_RE :: matcher where
  \<comment> \<open>\<open>^\s*(INT|EXT|INT/EXT|I/E)\.?\s\<close>\<close>
  "SCENE_HEADING_RE = re_seq re_bol (re_seq (re_star isspace) (re_seq scene_type
     (re_seq (re_opt (re_chr CHR ''.'')) (re_cls isspace))))"

definition transition_char :: "char \<Rightarrow> bool" where
  \<comment> \<open>\<open>[A-Z \t]\<close>\<close>
  "transition_char c = ((65 \<le> code c \<and> code c \<le> 90) \<or> c = CHR '' '' \<or> c = CHR 0x09)"

definition TRANSITION_RE :: matcher where
  \<comment> \<open>\<open>^\s*[A-Z \t]+TO:\s*$\<close>\<close>
  "TRANSITION_RE = re_seq re_bol (re_seq (re_star isspace) (re_seq (re_plus transition_char)
     (re_seq (re_str ''TO:'') (re_seq (re_star isspace) re_eol))))"

definition character_char :: "char \<Rightarrow> bool" where
  \<comment> \<open>\<open>[A-Z0-9 \-\(\)\'\.]\<close>\<close>
  "character_char c = ((65 \<le> code c \<and> code c \<le> 90) \<or> (48 \<le> code c \<and> code c \<le> 57) \<or>
     c = CHR '' '' \<or> c = CHR ''-'' \<or> c = CHR ''('' \<or> c = CHR '')'' \<or> c = CHR 0x27 \<or> c = CHR ''.'')"

definition CHARACTER_RE :: matcher where
  \<comment> \<open>\<open>^\s*[A-Z0-9 \-\(\)\'\.]+(?:\(.*\))?\s*$\<close>; the dot matches all but a newline\<close>
  "CHARACTER_RE = re_seq re_bol (re_seq (re_star isspace) (re_seq (re_plus character_char)
     (re_seq (re_opt (re_seq (re_chr CHR ''('') (re_seq (re_star (\<lambda>c. c \<noteq> LF)) (re_chr CHR '')''))))
       (re_seq (re_star isspace) re_eol))))"

definition is_scene_heading :: "string \<Rightarrow> bool" where
  "is_scene_heading line = re_match SCENE_HEADING_RE (strip line)"

definition is_transition :: "string \<Rightarrow> bool" where
  "is_transition line = re_match TRANSITION_RE (strip line)"

definition is_character_cue :: "string \<Rightarrow> bool" where
  \<comment> \<open>The source compares the float \<open>upper / alpha\<close> with \<open>0.8\<close>. With at most 60
      characters the quotient is 4/5 exactly, and then rounds to the double of \<open>0.8\<close>, or
      differs from 4/5 by at least 1/300: the comparison is that of the integers below.\<close>
  "is_character_cue line =
     (let s = strip line in
      if s = [] \<or> length s > 60 then False
      else if is_scene_heading s \<or> is_transition s then False
      else let alpha = length (filter isalpha s) in
        if alpha = 0 then False
        else let upper = length (filter isupper s) in
          4 * alpha < 5 * upper \<and> re_match CHARACTER_RE s)"

section \<open>Screenplay parser\<close>

datatype beat_kind = Action | Dialogue

record scene =
  scene_number :: int
  scene_heading :: string
  beats :: "(beat_kind \<times> string) list"
  characters :: "string set"

record parser_state =
  scenes :: "scene list"
  current_scene :: "scene option"
  buffer_action :: "string list"
  current_character :: "string option"

definition action_text :: "string list \<Rightarrow> string" where
  \<comment> \<open>\<open>t = " ".join(l.strip() for l in buffer_action if l.strip())\<close>\<close>
  "action_text buf = join '' '' (map strip (filter (\<lambda>l. strip l \<noteq> []) buf))"

definition flush_action_as_beat :: "scene \<Rightarrow> string list \<Rightarrow> scene \<times> string list" where
  \<comment> \<open>The closure works on \<open>current_scene\<close> and \<open>buffer_action\<close>; every call of the source
      is behind a test that a scene is open, so the open scene is an argument here.\<close>
  "flush_action_as_beat sc buf =
     (if buf \<noteq> [] then
        (let t = action_text buf
         in (if t \<noteq> [] then sc\<lparr>beats := beats sc @ [(Action, t)]\<rparr> else sc, []))
      else (sc, buf))"

definition truthy :: "string option \<Rightarrow> string option" where
  \<comment> \<open>\<open>if v:\<close> on a variable that holds \<open>None\<close> or a \<open>str\<close>: the string when the test
      passes (it is there and not empty)\<close>
  "truthy v = (case v of None \<Rightarrow> None | Some s \<Rightarrow> if s \<noteq> [] then Some s else None)"

definition parse_line :: "parser_state \<Rightarrow> string \<Rightarrow> parser_state" where
  \<comment> \<open>one turn of the loop over the lines\<close>
  "parse_line st raw =
     (let line = rstrip_newline raw in
      if is_scene_heading line then
        (let scs = (case current_scene st of
                      Some sc \<Rightarrow> scenes st @ [fst (flush_action_as_beat sc (buffer_action st))]
                    | None \<Rightarrow> scenes st)
         in \<lparr>scenes = scs,
             current_scene = Some \<lparr>scene_number = int (length scs) + 1,
               scene_heading = strip line, beats = [], characters = {}\<rparr>,
             buffer_action = [],
             current_character = None\<rparr>)
      else case current_scene st of
        None \<Rightarrow> st
      | Some sc \<Rightarrow>
          if strip line = [] then
            (let (sc', buf') = flush_action_as_beat sc (buffer_action st)
             in st\<lparr>current_scene := Some sc', buffer_action := buf', current_character := None\<rparr>)
          else if is_character_cue line then
            (let (sc', buf') = flush_action_as_beat sc (buffer_action st)
             in st\<lparr>current_scene := Some (sc'\<lparr>characters := insert (strip line) (characters sc')\<rparr>),
                   buffer_action := buf', current_character := Some (strip line)\<rparr>)
          else case truthy (current_character st) of
            Some speaker \<Rightarrow>
              (let txt = strip line
               in if txt \<noteq> [] then
                    st\<lparr>current_scene := Some (sc\<lparr>beats := beats sc @
                      [(Dialogue, speaker @ '': '' @ txt)]\<rparr>)\<rparr>
                  else st)
          | None \<Rightarrow>
              if is_transition line then
                (let (sc', buf') = flush_action_as_beat sc (buffer_action st)
                 in st\<lparr>current_scene := Some sc', buffer_action := buf'\<rparr>)
              else st\<lparr>buffer_action := buffer_action st @ [line]\<rparr>)"

definition initial_state :: parser_state where
  "initial_state = \<lparr>scenes = [], current_scene = None, buffer_action = [], current_character = None\<rparr>"

definition finish :: "parser_state \<Rightarrow> scene list" where
  \<comment> \<open>after the loop: the open scene, if any, is flushed and appended\<close>
  "finish st = (case current_scene st of
                  Some sc \<Rightarrow> scenes st @ [fst (flush_action_as_beat sc (buffer_action st))]
                | None \<Rightarrow> scenes st)"

definition parse_fountain_text :: "string \<Rightarrow> scene list" where
  "parse_fountain_text text = finish (foldl parse_line initial_state (splitlines text))"

definition open_scenes :: "parser_state \<Rightarrow> scene list" where
  \<comment> \<open>the scenes opened so far: the closed ones, then the current one\<close>
  "open_scenes st = scenes st @ (case current_scene st of None \<Rightarrow> [] | Some sc \<Rightarrow> [sc])"

definition heading_lines :: "string \<Rightarrow> string list" where
  \<comment> \<open>the lines of a document on which the loop takes its scene-heading branch\<close>
  "heading_lines text =
     filter (\<lambda>raw. is_scene_heading (rstrip_newline raw)) (splitlines text)"

section \<open>Column resolver\<close>

definition possible_map :: "(string \<times> string list) list" where
  \<comment> \<open>the dict literal, in its insertion order\<close>
  "possible_map =
    [(''Scene #'', [''Scene #'', ''Scene'', ''Scene No'', ''Scene Number'']),
     (''Scene Heading'', [''Scene Heading'', ''Heading'', ''Slugline'']),
     (''Beat/Action'', [''Beat/Action'', ''Beat'', ''Action'', ''Description'', ''What Happens'']),
     (''Shot #'', [''Shot #'', ''Shot Number'', ''Shot'']),
     (''Shot Type'', [''Shot Type'', ''Type'']),
     (''Angle'', [''Angle'']),
     (''Movement'', [''Movement'', ''Move'']),
     (''Lens'', [''Lens'']),
     (''Duration (s)'', [''Duration (s)'', ''Duration'', ''Est. Duration (s)'']),
     (''Location'', [''Location'']),
     (''Characters'', [''Characters'', ''Cast'']),
     (''Notes'', [''Notes''])]"

definition normalize :: "string \<Rightarrow> string" where
  \<comment> \<open>\<open>x.strip().lower()\<close>\<close>
  "normalize x = lower (strip x)"

fun scan_columns :: "string \<Rightarrow> string list \<Rightarrow> string option \<Rightarrow> string option" where
  \<comment> \<open>\<open>for c in columns\<close>, starting from what \<open>match\<close> holds before the loop\<close>
  "scan_columns alias [] match = match"
| "scan_columns alias (c # cs) match =
     (if normalize c = normalize alias then Some c else scan_columns alias cs match)"

fun scan_aliases :: "string list \<Rightarrow> string list \<Rightarrow> string option \<Rightarrow> string option" where
  \<comment> \<open>\<open>for alias in aliases\<close>, left by \<open>if match: break\<close>\<close>
  "scan_aliases [] columns match = match"
| "scan_aliases (alias # aliases) columns match =
     (let match' = scan_columns alias columns match
      in if truthy match' \<noteq> None then match' else scan_aliases aliases columns match')"

definition resolve_field :: "string \<Rightarrow> string list \<Rightarrow> string list \<Rightarrow> string \<times> string list" where
  \<comment> \<open>the body of the loop over \<open>possible_map.items()\<close>: the match and the working schema\<close>
  "resolve_field logical aliases columns =
     (case scan_aliases aliases columns None of
        None \<Rightarrow> (logical, if logical \<in> set columns then columns else columns @ [logical])
      | Some match \<Rightarrow> (match, columns))"

fun resolve_fields ::
  "(string \<times> string list) list \<Rightarrow> string list \<Rightarrow> (string \<rightharpoonup> string) \<Rightarrow>
   (string \<rightharpoonup> string) \<times> string list" where
  "resolve_fields [] columns col_map = (col_map, columns)"
| "resolve_fields ((logical, aliases) # rest) columns col_map =
     (let (match, columns') = resolve_field logical aliases columns
      in resolve_fields rest columns' (col_map(logical \<mapsto> match)))"

definition resolve_columns :: "string list \<Rightarrow> (string \<rightharpoonup> string) \<times> string list" where
  "resolve_columns columns = resolve_fields possible_map columns Map.empty"

definition alias_index :: "(string \<times> string) list" where
  \<comment> \<open>every alias of the catalog, normalized as the comparison does, with its logical field\<close>
  "alias_index =
     concat (map (\<lambda>(logical, aliases). map (\<lambda>a. (normalize a, logical)) aliases) possible_map)"

fun uniq_from :: "string set \<Rightarrow> string list \<Rightarrow> string list" where
  \<comment> \<open>the loop that fills \<open>uniq_cols\<close>: the first occurrence of each name is kept\<close>
  "uniq_from seen [] = []"
| "uniq_from seen (c # cs) =
     (if c \<notin> seen then c # uniq_from (insert c seen) cs else uniq_from seen cs)"

section \<open>Shotlist builder\<close>

datatype cell = Str string | Num int

type_synonym row = "string \<rightharpoonup> cell"

record dataframe =
  df_columns :: "string list"
  df_rows :: "row list"

definition location_prefix :: matcher where
  \<comment> \<open>\<open>^\s*(INT|EXT|INT/EXT|I/E)\.?\s*\<close> under \<open>re.IGNORECASE\<close>\<close>
  "location_prefix = re_seq re_bol (re_seq (re_star isspace) (re_seq scene_type
     (re_seq (re_opt (re_chr CHR ''.'')) (re_star isspace))))"

definition hyphen :: matcher where
  \<comment> \<open>\<open>\s*-\s*\<close>\<close>
  "hyphen = re_seq (re_star isspace) (re_seq (re_chr CHR ''-'') (re_star isspace))"

definition location :: "string \<Rightarrow> string" where
  \<comment> \<open>\<open>loc\<close>; on a \<open>str\<close> neither \<open>re.sub\<close> nor \<open>re.split\<close> raises, and a split has a
      first part, so the \<open>except\<close> branch is never taken\<close>
  "location heading =
     (let head_no_prefix = re_sub_empty location_prefix heading
      in strip (re_split_first hyphen head_no_prefix))"

definition kind_name :: "beat_kind \<Rightarrow> string" where
  "kind_name k = (case k of Action \<Rightarrow> ''Action'' | Dialogue \<Rightarrow> ''Dialogue'')"

definition char_list :: "scene \<Rightarrow> string" where
  "char_list sc =
     (if characters sc \<noteq> {} then join '', '' (sorted_list_of_set (characters sc)) else [])"

definition make_row ::
  "(string \<rightharpoonup> string) \<Rightarrow> string list \<Rightarrow> scene \<Rightarrow> int \<Rightarrow> beat_kind \<times> string \<Rightarrow> row option" where
  \<comment> \<open>the body of the loop over the beats; \<open>None\<close> is the \<open>KeyError\<close> of \<open>col_map[...]\<close>\<close>
  "make_row col_map uniq_cols sc shot_counter beat =
     do {
       let row = map_of (map (\<lambda>c. (c, Str [])) uniq_cols);
       c \<leftarrow> col_map ''Scene #'';
       let row = row(c \<mapsto> Num (scene_number sc));
       c \<leftarrow> col_map ''Scene Heading'';
       let row = row(c \<mapsto> Str (scene_heading sc));
       c \<leftarrow> col_map ''Beat/Action'';
       let row = row(c \<mapsto> Str (''['' @ kind_name (fst beat) @ ''] '' @ snd beat));
       c \<leftarrow> col_map ''Shot #'';
       let row = row(c \<mapsto> Num shot_counter);
       c \<leftarrow> col_map ''Shot Type'';
       let row = row(c \<mapsto> Str ''MS'');
       c \<leftarrow> col_map ''Angle'';
       let row = row(c \<mapsto> Str ''Eye-level'');
       c \<leftarrow> col_map ''Movement'';
       let row = row(c \<mapsto> Str ''Static'');
       c \<leftarrow> col_map ''Lens'';
       let row = row(c \<mapsto> Str ''35mm'');
       c \<leftarrow> col_map ''Location'';
       let row = row(c \<mapsto> Str (location (scene_heading sc)));
       c \<leftarrow> col_map ''Characters'';
       let row = row(c \<mapsto> Str (char_list sc));
       c \<leftarrow> col_map ''Notes'';
       let row = row(c \<mapsto> Str []);
       Some row
     }"

fun beat_rows ::
  "(string \<rightharpoonup> string) \<Rightarrow> string list \<Rightarrow> scene \<Rightarrow> int \<Rightarrow> (beat_kind \<times> string) list \<Rightarrow>
   row list option" where
  \<comment> \<open>\<open>for kind, beat_text in sc["beats"]\<close>, with \<open>shot_counter\<close>\<close>
  "beat_rows col_map uniq_cols sc shot_counter [] = Some []"
| "beat_rows col_map uniq_cols sc shot_counter (beat # rest) =
     do {
       row \<leftarrow> make_row col_map uniq_cols sc shot_counter beat;
       more \<leftarrow> beat_rows col_map uniq_cols sc (shot_counter + 1) rest;
       Some (row # more)
     }"

fun scene_rows :: "(string \<rightharpoonup> string) \<Rightarrow> string list \<Rightarrow> scene list \<Rightarrow> row list option" where
  \<comment> \<open>\<open>for sc in scenes\<close>\<close>
  "scene_rows col_map uniq_cols [] = Some []"
| "scene_rows col_map uniq_cols (sc # rest) =
     do {
       rows \<leftarrow> beat_rows col_map uniq_cols sc 1 (beats sc);
       more \<leftarrow> scene_rows col_map uniq_cols rest;
       Some (rows @ more)
     }"

definition build_shotlist_from_scenes :: "scene list \<Rightarrow> string list \<Rightarrow> dataframe option" where
  "build_shotlist_from_scenes scs columns =
     (let (col_map, columns') = resolve_columns columns;
          uniq_cols = uniq_from {} columns'
      in do {
           rows \<leftarrow> scene_rows col_map uniq_cols scs;
           Some \<lparr>df_columns = uniq_cols, df_rows = rows\<rparr>
         })"

section \<open>Trimming\<close>

lemma dropWhile_all_Nil: "(\<forall>x\<in>set (dropWhile P xs). P x) \<Longrightarrow> dropWhile P xs = []"
  using hd_dropWhile [of P xs] hd_in_set [of "dropWhile P xs"] by blast

lemma strip_Nil_iff: "strip s = [] \<longleftrightarrow> (\<forall>c\<in>set s. isspace c)"
proof
  assume "strip s = []"
  then have "\<forall>x\<in>set (dropWhile isspace s). isspace x"
    by (simp add: strip_def lstrip_def rstrip_def dropWhile_eq_Nil_conv)
  then have "dropWhile isspace s = []" by (rule dropWhile_all_Nil)
  then show "\<forall>c\<in>set s. isspace c" by (simp add: dropWhile_eq_Nil_conv)
next
  assume "\<forall>c\<in>set s. isspace c"
  then have d: "dropWhile isspace s = []" by simp
  show "strip s = []" unfolding strip_def lstrip_def rstrip_def d by simp
qed

lemma rstrip_idem: "rstrip (rstrip s) = rstrip s"
  by (simp add: rstrip_def)

lemma dropWhile_snoc_keep: "\<not> P x \<Longrightarrow> \<exists>u. dropWhile P (ys @ [x]) = u @ [x]"
  by (simp add: dropWhile_append)

lemma lstrip_rstrip: "lstrip (rstrip (lstrip s)) = rstrip (lstrip s)"
proof (cases "dropWhile isspace s")
  case Nil
  show ?thesis unfolding lstrip_def rstrip_def Nil by simp
next
  case (Cons x t)
  have nx: "\<not> isspace x" using hd_dropWhile [of isspace s] unfolding Cons by simp
  from nx obtain u where u: "dropWhile isspace (rev t @ [x]) = u @ [x]"
    using dropWhile_snoc_keep [of isspace x "rev t"] by blast
  have "rev (dropWhile isspace (rev (x # t))) = x # rev u"
    by (simp only: rev.simps u rev_append append.simps)
  then have a: "rstrip (lstrip s) = x # rev u"
    by (simp only: lstrip_def rstrip_def Cons)
  have b: "lstrip (x # rev u) = x # rev u"
    using nx by (simp add: lstrip_def)
  show ?thesis by (simp only: a b)
qed

lemma strip_idem: "strip (strip s) = strip s"
  by (simp add: strip_def lstrip_rstrip rstrip_idem)

lemma strip_has_nonspace: "strip s \<noteq> [] \<Longrightarrow> \<exists>c\<in>set (strip s). \<not> isspace c"
  using strip_Nil_iff [of "strip s"] by (simp add: strip_idem)

lemma set_hd_join: "xs \<noteq> [] \<Longrightarrow> set (hd xs) \<subseteq> set (join sep xs)"
  by (induction sep xs rule: join.induct) auto

section \<open>Flushing\<close>

lemma action_text_nonblank: "action_text buf \<noteq> [] \<Longrightarrow> strip (action_text buf) \<noteq> []"
proof -
  let ?ys = "filter (\<lambda>l. strip l \<noteq> []) buf"
  assume ne: "action_text buf \<noteq> []"
  then have ys: "?ys \<noteq> []" by (auto simp: action_text_def)
  then have "hd ?ys \<in> set ?ys" by (rule hd_in_set)
  then have l: "strip (hd ?ys) \<noteq> []" by simp
  then obtain c where c: "c \<in> set (strip (hd ?ys))" "\<not> isspace c"
    using strip_has_nonspace by blast
  have "set (hd (map strip ?ys)) \<subseteq> set (join '' '' (map strip ?ys))"
    using ys by (intro set_hd_join) simp
  with c ys have "c \<in> set (action_text buf)"
    by (auto simp: action_text_def hd_map)
  with c show ?thesis by (auto simp: strip_Nil_iff)
qed

lemma action_text_blank: "\<forall>l\<in>set buf. strip l = [] \<Longrightarrow> action_text buf = []"
  by (simp add: action_text_def filter_False)

lemma action_text_Nil: "action_text [] = []"
  by (simp add: action_text_def)

lemma flush_eq:
  "flush_action_as_beat sc buf =
     (if action_text buf \<noteq> [] then sc\<lparr>beats := beats sc @ [(Action, action_text buf)]\<rparr> else sc, [])"
  by (cases "buf = []") (simp_all add: flush_action_as_beat_def Let_def action_text_Nil)

lemma dialogue_nonblank: "strip (speaker @ CHR '':'' # rest) \<noteq> []"
proof -
  have "\<not> isspace CHR '':''" by (simp add: isspace_def code_def)
  then show ?thesis by (auto simp: strip_Nil_iff)
qed

section \<open>Scene numbers\<close>

lemma parse_line_numbers:
  "map scene_number (open_scenes (parse_line st raw)) =
     (if is_scene_heading (rstrip_newline raw)
      then map scene_number (open_scenes st) @ [int (length (open_scenes st)) + 1]
      else map scene_number (open_scenes st))"
  by (simp add: parse_line_def open_scenes_def Let_def flush_eq split: option.splits)

lemma parse_line_headings:
  "map scene_heading (open_scenes (parse_line st raw)) =
     (if is_scene_heading (rstrip_newline raw)
      then map scene_heading (open_scenes st) @ [strip (rstrip_newline raw)]
      else map scene_heading (open_scenes st))"
  by (simp add: parse_line_def open_scenes_def Let_def flush_eq split: option.splits)

lemma parse_line_length:
  "length (open_scenes (parse_line st raw)) =
     (if is_scene_heading (rstrip_newline raw) then Suc (length (open_scenes st))
      else length (open_scenes st))"
  using arg_cong [OF parse_line_numbers [of st raw], of length] by (simp split: if_splits)

lemma finish_numbers: "map scene_number (finish st) = map scene_number (open_scenes st)"
  by (simp add: finish_def open_scenes_def flush_eq split: option.splits)

lemma finish_headings: "map scene_heading (finish st) = map scene_heading (open_scenes st)"
  by (simp add: finish_def open_scenes_def flush_eq split: option.splits)

lemma foldl_numbers:
  "map scene_number (open_scenes st) = map int [1..<Suc (length (open_scenes st))] \<Longrightarrow>
   map scene_number (open_scenes (foldl parse_line st ls)) =
     map int [1..<Suc (length (open_scenes st) + length (filter (\<lambda>raw. is_scene_heading (rstrip_newline raw)) ls))]"
proof (induction ls arbitrary: st)
  case Nil
  then show ?case by simp
next
  case (Cons raw ls)
  have "map scene_number (open_scenes (parse_line st raw)) =
          map int [1..<Suc (length (open_scenes (parse_line st raw)))]"
    using Cons.prems by (simp add: parse_line_numbers parse_line_length)
  from Cons.IH [OF this] show ?case by (simp add: parse_line_length)
qed

lemma foldl_headings:
  "map scene_heading (open_scenes (foldl parse_line st ls)) =
     map scene_heading (open_scenes st) @
     map (\<lambda>raw. strip (rstrip_newline raw)) (filter (\<lambda>raw. is_scene_heading (rstrip_newline raw)) ls)"
  by (induction ls arbitrary: st) (simp_all add: parse_line_headings)

lemma open_scenes_initial: "open_scenes initial_state = []"
  by (simp add: open_scenes_def initial_state_def)

lemma parse_numbers:
  "map scene_number (parse_fountain_text text) = map int [1..<Suc (length (heading_lines text))]"
  using foldl_numbers [of initial_state "splitlines text"]
  by (simp add: parse_fountain_text_def finish_numbers open_scenes_initial heading_lines_def)

lemma parse_headings:
  "map scene_heading (parse_fountain_text text) =
     map (\<lambda>raw. strip (rstrip_newline raw)) (heading_lines text)"
  by (simp add: parse_fountain_text_def finish_headings foldl_headings open_scenes_initial
      heading_lines_def)

section \<open>Beats are never blank\<close>

lemma flush_beats_nonblank:
  "\<forall>b\<in>set (beats sc). strip (snd b) \<noteq> [] \<Longrightarrow>
   \<forall>b\<in>set (beats (fst (flush_action_as_beat sc buf))). strip (snd b) \<noteq> []"
  by (auto simp: flush_eq action_text_nonblank)

lemma parse_line_nonblank:
  assumes "\<forall>sc\<in>set (open_scenes st). \<forall>b\<in>set (beats sc). strip (snd b) \<noteq> []"
  shows "\<forall>sc\<in>set (open_scenes (parse_line st raw)). \<forall>b\<in>set (beats sc). strip (snd b) \<noteq> []"
  using assms
  by (auto simp: parse_line_def open_scenes_def Let_def flush_eq action_text_nonblank
      dialogue_nonblank split: option.splits if_splits)

lemma foldl_nonblank:
  "\<forall>sc\<in>set (open_scenes st). \<forall>b\<in>set (beats sc). strip (snd b) \<noteq> [] \<Longrightarrow>
   \<forall>sc\<in>set (open_scenes (foldl parse_line st ls)). \<forall>b\<in>set (beats sc). strip (snd b) \<noteq> []"
proof (induction ls arbitrary: st)
  case Nil
  then show ?case by simp
next
  case (Cons raw ls)
  show ?case
    using Cons.IH [OF parse_line_nonblank [OF Cons.prems]] by simp
qed

lemma finish_nonblank:
  "\<forall>sc\<in>set (open_scenes st). \<forall>b\<in>set (beats sc). strip (snd b) \<noteq> [] \<Longrightarrow>
   \<forall>sc\<in>set (finish st). \<forall>b\<in>set (beats sc). strip (snd b) \<noteq> []"
  by (auto simp: finish_def open_scenes_def flush_eq action_text_nonblank split: option.splits if_splits)

lemma parse_nonblank:
  "\<forall>sc\<in>set (parse_fountain_text text). \<forall>b\<in>set (beats sc). strip (snd b) \<noteq> []"
  unfolding parse_fountain_text_def
  by (rule finish_nonblank, rule foldl_nonblank) (simp add: open_scenes_initial)

section \<open>Column resolution\<close>

lemma scan_columns_find:
  "scan_columns alias columns match =
     (case find (\<lambda>c. normalize c = normalize alias) columns of
        None \<Rightarrow> match | Some c \<Rightarrow> Some c)"
  by (induction columns) simp_all

lemma scan_columns_Some:
  "scan_columns alias columns match = Some r \<Longrightarrow>
   match = Some r \<or> (r \<in> set columns \<and> normalize r = normalize alias)"
  by (induction columns) (auto split: if_splits)

lemma scan_aliases_Some:
  "scan_aliases aliases columns match = Some r \<Longrightarrow>
   match = Some r \<or> (r \<in> set columns \<and> normalize r \<in> normalize ` set aliases)"
proof (induction aliases arbitrary: match)
  case Nil
  then show ?case by simp
next
  case (Cons a rest)
  let ?m = "scan_columns a columns match"
  show ?case
  proof (cases "truthy ?m \<noteq> None")
    case True
    with Cons.prems have "?m = Some r" by simp
    from scan_columns_Some [OF this] show ?thesis by auto
  next
    case False
    with Cons.prems have "scan_aliases rest columns ?m = Some r" by simp
    from Cons.IH [OF this] show ?thesis
      using scan_columns_Some [of a columns match r] by auto
  qed
qed

lemma resolve_field_normalize:
  "logical \<in> set aliases \<Longrightarrow>
   normalize (fst (resolve_field logical aliases columns)) \<in> normalize ` set aliases"
  using scan_aliases_Some [of aliases columns None]
  by (auto simp: resolve_field_def split: option.splits)

lemma resolve_field_extends:
  "\<exists>ext. snd (resolve_field logical aliases columns) = columns @ ext"
  by (auto simp: resolve_field_def split: option.splits)

lemma resolve_fields_other:
  "l \<notin> fst ` set pm \<Longrightarrow> fst (resolve_fields pm columns col_map) l = col_map l"
  by (induction pm columns col_map rule: resolve_fields.induct)
     (auto simp: Let_def split: prod.splits)

lemma resolve_fields_lookup:
  "distinct (map fst pm) \<Longrightarrow> (l, aliases) \<in> set pm \<Longrightarrow>
   \<exists>ext. fst (resolve_fields pm columns col_map) l =
          Some (fst (resolve_field l aliases (columns @ ext)))"
proof (induction pm arbitrary: columns col_map)
  case Nil
  then show ?case by simp
next
  case (Cons p pm)
  obtain l' aliases' where p: "p = (l', aliases')" by (cases p)
  obtain r cols' where rf: "resolve_field l' aliases' columns = (r, cols')"
    by (cases "resolve_field l' aliases' columns")
  show ?case
  proof (cases "(l, aliases) = p")
    case True
    with Cons.prems p have "l \<notin> fst ` set pm" by auto
    then have "fst (resolve_fields (p # pm) columns col_map) l = Some r"
      using p rf True by (simp add: resolve_fields_other)
    moreover have "r = fst (resolve_field l aliases (columns @ []))"
      using p rf True by simp
    ultimately show ?thesis by blast
  next
    case False
    with Cons.prems have mem: "(l, aliases) \<in> set pm" and d: "distinct (map fst pm)" by auto
    obtain e where e: "cols' = columns @ e"
      using resolve_field_extends [of l' aliases' columns] rf by auto
    from Cons.IH [OF d mem, of cols' "col_map(l' \<mapsto> r)"]
    obtain ext where "fst (resolve_fields pm cols' (col_map(l' \<mapsto> r))) l =
        Some (fst (resolve_field l aliases (cols' @ ext)))" by blast
    then have "fst (resolve_fields (p # pm) columns col_map) l =
        Some (fst (resolve_field l aliases (columns @ (e @ ext))))"
      using p rf e by simp
    then show ?thesis by blast
  qed
qed

section \<open>The catalog\<close>

lemmas char_defs = isspace_def isupper_def isalpha_def lower_char_def code_def LF_def CR_def char_of_def bit_Suc_0_iff
lemmas string_defs = strip_def lstrip_def rstrip_def lower_def normalize_def rstrip_newline_def

lemma alias_index_eq:
  "alias_index =
    [(''scene #'', ''Scene #''), (''scene'', ''Scene #''), (''scene no'', ''Scene #''),
     (''scene number'', ''Scene #''),
     (''scene heading'', ''Scene Heading''), (''heading'', ''Scene Heading''),
     (''slugline'', ''Scene Heading''),
     (''beat/action'', ''Beat/Action''), (''beat'', ''Beat/Action''), (''action'', ''Beat/Action''),
     (''description'', ''Beat/Action''), (''what happens'', ''Beat/Action''),
     (''shot #'', ''Shot #''), (''shot number'', ''Shot #''), (''shot'', ''Shot #''),
     (''shot type'', ''Shot Type''), (''type'', ''Shot Type''),
     (''angle'', ''Angle''),
     (''movement'', ''Movement''), (''move'', ''Movement''),
     (''lens'', ''Lens''),
     (''duration (s)'', ''Duration (s)''), (''duration'', ''Duration (s)''),
     (''est. duration (s)'', ''Duration (s)''),
     (''location'', ''Location''),
     (''characters'', ''Characters''), (''cast'', ''Characters''),
     (''notes'', ''Notes'')]"
  by (simp add: alias_index_def possible_map_def string_defs char_defs)

lemma alias_index_distinct: "distinct (map fst alias_index)"
  by (simp add: alias_index_eq)

lemma possible_map_distinct: "distinct (map fst possible_map)"
  by (simp add: possible_map_def)

lemma possible_map_canonical:
  "(l, aliases) \<in> set possible_map \<Longrightarrow> \<exists>rest. aliases = l # rest"
  by (auto simp: possible_map_def)

lemma alias_index_mem:
  "(l, aliases) \<in> set possible_map \<Longrightarrow> a \<in> set aliases \<Longrightarrow> (normalize a, l) \<in> set alias_index"
  by (force simp: alias_index_def)

lemma col_map_normalize:
  assumes "(l, aliases) \<in> set possible_map"
  shows "\<exists>r. fst (resolve_columns columns) l = Some r \<and> (normalize r, l) \<in> set alias_index"
proof -
  from resolve_fields_lookup [OF possible_map_distinct assms, of columns Map.empty]
  obtain ext where e: "fst (resolve_columns columns) l =
      Some (fst (resolve_field l aliases (columns @ ext)))"
    by (auto simp: resolve_columns_def)
  from possible_map_canonical [OF assms] have "l \<in> set aliases" by auto
  from resolve_field_normalize [OF this, of "columns @ ext"]
  obtain a where "a \<in> set aliases"
    "normalize (fst (resolve_field l aliases (columns @ ext))) = normalize a" by auto
  with alias_index_mem [OF assms, of a] e show ?thesis by simp
qed

lemma col_map_inj:
  assumes "(l1, aliases1) \<in> set possible_map" and "(l2, aliases2) \<in> set possible_map"
    and "fst (resolve_columns columns) l1 = fst (resolve_columns columns) l2"
  shows "l1 = l2"
proof -
  from col_map_normalize [OF assms(1), of columns] obtain r1 where
    r1: "fst (resolve_columns columns) l1 = Some r1" "(normalize r1, l1) \<in> set alias_index" by blast
  from col_map_normalize [OF assms(2), of columns] obtain r2 where
    r2: "fst (resolve_columns columns) l2 = Some r2" "(normalize r2, l2) \<in> set alias_index" by blast
  from r1 r2 assms(3) have "r1 = r2" by simp
  with r1 r2 show ?thesis
    using eq_key_imp_eq_value [OF alias_index_distinct] by blast
qed

lemma fields_eq:
  "map fst possible_map = [''Scene #'', ''Scene Heading'', ''Beat/Action'', ''Shot #'', ''Shot Type'',
     ''Angle'', ''Movement'', ''Lens'', ''Duration (s)'', ''Location'', ''Characters'', ''Notes'']"
  by (simp add: possible_map_def)

lemma field_mem: "l \<in> set (map fst possible_map) \<Longrightarrow> \<exists>aliases. (l, aliases) \<in> set possible_map"
  by auto

lemma col_map_defined:
  "l \<in> set (map fst possible_map) \<Longrightarrow> \<exists>r. fst (resolve_columns columns) l = Some r"
  using col_map_normalize field_mem by blast

lemma col_map_distinct:
  "l1 \<in> set (map fst possible_map) \<Longrightarrow> l2 \<in> set (map fst possible_map) \<Longrightarrow> l1 \<noteq> l2 \<Longrightarrow>
   fst (resolve_columns columns) l1 \<noteq> fst (resolve_columns columns) l2"
  using col_map_inj field_mem by blast

section \<open>Rows\<close>

lemma make_row_total:
  "\<exists>row. make_row (fst (resolve_columns columns)) uniq_cols sc k beat = Some row"
proof -
  let ?cm = "fst (resolve_columns columns)"
  have "\<forall>l\<in>set (map fst possible_map). \<exists>r. ?cm l = Some r"
    using col_map_defined by blast
  then obtain c1 c2 c3 c4 c5 c6 c7 c8 c10 c11 c12 where
    "?cm ''Scene #'' = Some c1" "?cm ''Scene Heading'' = Some c2" "?cm ''Beat/Action'' = Some c3"
    "?cm ''Shot #'' = Some c4" "?cm ''Shot Type'' = Some c5" "?cm ''Angle'' = Some c6"
    "?cm ''Movement'' = Some c7" "?cm ''Lens'' = Some c8" "?cm ''Location'' = Some c10"
    "?cm ''Characters'' = Some c11" "?cm ''Notes'' = Some c12"
    unfolding fields_eq by (simp only: list.set ball_simps insert_iff) blast
  then show ?thesis by (simp add: make_row_def)
qed

lemma make_row_shot:
  assumes "make_row (fst (resolve_columns columns)) uniq_cols sc k beat = Some row"
    and "fst (resolve_columns columns) ''Shot #'' = Some c"
  shows "row c = Some (Num k)"
proof -
  let ?cm = "fst (resolve_columns columns)"
  have d: "\<And>l. l \<in> set (map fst possible_map) \<Longrightarrow> l \<noteq> ''Shot #'' \<Longrightarrow> ?cm l \<noteq> Some c"
    using col_map_distinct [of _ "''Shot #''" columns] assms(2) by (simp add: fields_eq)
  have "?cm ''Shot Type'' \<noteq> Some c" "?cm ''Angle'' \<noteq> Some c" "?cm ''Movement'' \<noteq> Some c"
    "?cm ''Lens'' \<noteq> Some c" "?cm ''Location'' \<noteq> Some c" "?cm ''Characters'' \<noteq> Some c"
    "?cm ''Notes'' \<noteq> Some c"
    by (rule d, simp add: fields_eq, simp)+
  with assms show ?thesis
    by (auto simp: make_row_def Let_def split: Option.bind_splits)
qed

lemma beat_rows_total:
  "\<exists>rows. beat_rows (fst (resolve_columns columns)) uniq_cols sc k bs = Some rows \<and>
          length rows = length bs"
proof (induction bs arbitrary: k)
  case Nil
  show ?case by simp
next
  case (Cons b bs)
  from make_row_total obtain row where
    "make_row (fst (resolve_columns columns)) uniq_cols sc k b = Some row" by blast
  moreover from Cons [of "k + 1"] obtain more where
    "beat_rows (fst (resolve_columns columns)) uniq_cols sc (k + 1) bs = Some more"
    "length more = length bs" by blast
  ultimately show ?case by simp
qed

lemma beat_rows_shot:
  assumes "fst (resolve_columns columns) ''Shot #'' = Some c"
  shows "beat_rows (fst (resolve_columns columns)) uniq_cols sc k bs = Some rows \<Longrightarrow>
         map (\<lambda>row. row c) rows = map (\<lambda>n. Some (Num n)) [k..k + int (length bs) - 1]"
proof (induction bs arbitrary: k rows)
  case Nil
  then show ?case by simp
next
  case (Cons b bs)
  from Cons.prems obtain row more where
    row: "make_row (fst (resolve_columns columns)) uniq_cols sc k b = Some row" and
    more: "beat_rows (fst (resolve_columns columns)) uniq_cols sc (k + 1) bs = Some more" and
    rows: "rows = row # more"
    by (auto split: Option.bind_splits)
  have "[k..k + int (length (b # bs)) - 1] = k # [k + 1..k + 1 + int (length bs) - 1]"
    by (simp add: upto_rec1 [of k] add.commute add.left_commute)
  with Cons.IH [OF more] make_row_shot [OF row assms] rows show ?case by simp
qed

lemma scene_rows_total:
  "\<exists>rows. scene_rows (fst (resolve_columns columns)) uniq_cols scs = Some rows \<and>
          length rows = sum_list (map (\<lambda>sc. length (beats sc)) scs)"
proof (induction scs)
  case Nil
  show ?case by simp
next
  case (Cons sc scs)
  from beat_rows_total [of columns uniq_cols sc 1 "beats sc"] obtain rows where
    "beat_rows (fst (resolve_columns columns)) uniq_cols sc 1 (beats sc) = Some rows"
    "length rows = length (beats sc)" by blast
  moreover from Cons obtain more where
    "scene_rows (fst (resolve_columns columns)) uniq_cols scs = Some more"
    "length more = sum_list (map (\<lambda>sc. length (beats sc)) scs)" by blast
  ultimately show ?case by simp
qed

lemma scene_rows_shot:
  assumes "fst (resolve_columns columns) ''Shot #'' = Some c"
  shows "scene_rows (fst (resolve_columns columns)) uniq_cols scs = Some rows \<Longrightarrow>
         map (\<lambda>row. row c) rows =
           concat (map (\<lambda>sc. map (\<lambda>n. Some (Num n)) [1..int (length (beats sc))]) scs)"
proof (induction scs arbitrary: rows)
  case Nil
  then show ?case by simp
next
  case (Cons sc scs)
  from Cons.prems obtain first more where
    first: "beat_rows (fst (resolve_columns columns)) uniq_cols sc 1 (beats sc) = Some first" and
    more: "scene_rows (fst (resolve_columns columns)) uniq_cols scs = Some more" and
    rows: "rows = first @ more"
    by (auto split: Option.bind_splits)
  from beat_rows_shot [OF assms first] Cons.IH [OF more] rows show ?case by simp
qed

lemma build_eq:
  "build_shotlist_from_scenes scs columns =
     map_option (\<lambda>rows. \<lparr>df_columns = uniq_from {} (snd (resolve_columns columns)), df_rows = rows\<rparr>)
       (scene_rows (fst (resolve_columns columns)) (uniq_from {} (snd (resolve_columns columns))) scs)"
  by (cases "scene_rows (fst (resolve_columns columns)) (uniq_from {} (snd (resolve_columns columns))) scs")
     (simp_all add: build_shotlist_from_scenes_def Let_def split_beta)

lemma build_total:
  "\<exists>rows. build_shotlist_from_scenes scs columns =
      Some \<lparr>df_columns = uniq_from {} (snd (resolve_columns columns)), df_rows = rows\<rparr> \<and>
    scene_rows (fst (resolve_columns columns)) (uniq_from {} (snd (resolve_columns columns))) scs = Some rows \<and>
    length rows = sum_list (map (\<lambda>sc. length (beats sc)) scs)"
  using scene_rows_total [of columns "uniq_from {} (snd (resolve_columns columns))" scs]
  by (auto simp: build_eq)

section \<open>Sample lines\<close>

lemmas re_defs = re_match_def re_seq_def re_alt_def re_opt_def re_plus_def re_chr_def re_cls_def
  re_bol_def re_eol_def re_sub_empty_def re_split_first_def

lemma sample_rstrip_newline:
  "rstrip_newline ''INT. A'' = ''INT. A''" "rstrip_newline ''EXT. B'' = ''EXT. B''"
  "rstrip_newline ''Hi.'' = ''Hi.''" "rstrip_newline ''Go.'' = ''Go.''"
  "rstrip_newline ''Yes.'' = ''Yes.''" "rstrip_newline ''BO'' = ''BO''"
  "rstrip_newline ''AL'' = ''AL''" "rstrip_newline ''TO:'' = ''TO:''"
  "rstrip_newline ''CUT TO:'' = ''CUT TO:''" "rstrip_newline [] = []"
  "rstrip_newline ''INT/EXT. KITCHEN - DAY'' = ''INT/EXT. KITCHEN - DAY''"
  by (simp_all add: rstrip_newline_def LF_def)

lemma sample_strip:
  "strip ''INT. A'' = ''INT. A''" "strip ''EXT. B'' = ''EXT. B''"
  "strip ''Hi.'' = ''Hi.''" "strip ''Go.'' = ''Go.''"
  "strip ''Yes.'' = ''Yes.''" "strip ''BO'' = ''BO''"
  "strip ''AL'' = ''AL''" "strip ''TO:'' = ''TO:''"
  "strip ''CUT TO:'' = ''CUT TO:''" "strip [] = []"
  "strip ''INT/EXT. KITCHEN - DAY'' = ''INT/EXT. KITCHEN - DAY''"
  by (simp_all add: strip_def lstrip_def rstrip_def isspace_def code_def)

lemma scene_heading_iff: "strip l = s \<Longrightarrow> is_scene_heading l = re_match SCENE_HEADING_RE s"
  by (simp add: is_scene_heading_def)

lemma transition_iff: "strip l = s \<Longrightarrow> is_transition l = re_match TRANSITION_RE s"
  by (simp add: is_transition_def)

lemma sample_heading_re:
  "re_match SCENE_HEADING_RE ''INT. A''" "re_match SCENE_HEADING_RE ''EXT. B''"
  "re_match SCENE_HEADING_RE ''INT/EXT. KITCHEN - DAY''"
  "\<not> re_match SCENE_HEADING_RE ''Hi.''" "\<not> re_match SCENE_HEADING_RE ''Go.''"
  "\<not> re_match SCENE_HEADING_RE ''Yes.''" "\<not> re_match SCENE_HEADING_RE ''BO''"
  "\<not> re_match SCENE_HEADING_RE ''AL''" "\<not> re_match SCENE_HEADING_RE ''TO:''"
  "\<not> re_match SCENE_HEADING_RE ''CUT TO:''" "\<not> re_match SCENE_HEADING_RE []"
  by (simp_all add: SCENE_HEADING_RE_def scene_type_def re_defs char_defs)

lemma sample_transition_re:
  "re_match TRANSITION_RE ''CUT TO:''" "\<not> re_match TRANSITION_RE ''TO:''"
  "\<not> re_match TRANSITION_RE ''Hi.''" "\<not> re_match TRANSITION_RE ''Go.''"
  "\<not> re_match TRANSITION_RE ''Yes.''" "\<not> re_match TRANSITION_RE ''BO''"
  "\<not> re_match TRANSITION_RE ''AL''" "\<not> re_match TRANSITION_RE []"
  by (simp_all add: TRANSITION_RE_def transition_char_def re_defs char_defs)

lemma sample_character_re:
  "re_match CHARACTER_RE ''BO''" "re_match CHARACTER_RE ''AL''" "\<not> re_match CHARACTER_RE ''TO:''"
  by (simp_all add: CHARACTER_RE_def character_char_def re_defs char_defs)

lemma character_cue_iff:
  "strip l = s \<Longrightarrow> is_character_cue l =
     (s \<noteq> [] \<and> length s \<le> 60 \<and> \<not> re_match SCENE_HEADING_RE s \<and> \<not> re_match TRANSITION_RE s \<and>
      length (filter isalpha s) \<noteq> 0 \<and>
      4 * length (filter isalpha s) < 5 * length (filter isupper s) \<and> re_match CHARACTER_RE s)"
  using strip_idem [of l]
  by (auto simp: is_character_cue_def is_scene_heading_def is_transition_def Let_def)

lemma sample_cue:
  "is_character_cue ''BO''" "is_character_cue ''AL''"
  "\<not> is_character_cue ''Hi.''" "\<not> is_character_cue ''Go.''" "\<not> is_character_cue ''Yes.''"
  "\<not> is_character_cue ''TO:''" "\<not> is_character_cue ''CUT TO:''"
  by (simp_all add: character_cue_iff [OF sample_strip(1)] character_cue_iff [OF sample_strip(3)]
      character_cue_iff [OF sample_strip(4)] character_cue_iff [OF sample_strip(5)]
      character_cue_iff [OF sample_strip(6)] character_cue_iff [OF sample_strip(7)]
      character_cue_iff [OF sample_strip(8)] character_cue_iff [OF sample_strip(9)]
      sample_heading_re sample_transition_re sample_character_re isalpha_def isupper_def code_def)

section \<open>Sample documents\<close>

lemmas sample_lines = sample_rstrip_newline sample_strip
  scene_heading_iff [OF sample_strip(1)] scene_heading_iff [OF sample_strip(2)]
  scene_heading_iff [OF sample_strip(3)] scene_heading_iff [OF sample_strip(4)]
  scene_heading_iff [OF sample_strip(5)] scene_heading_iff [OF sample_strip(6)]
  scene_heading_iff [OF sample_strip(7)] scene_heading_iff [OF sample_strip(8)]
  scene_heading_iff [OF sample_strip(9)] scene_heading_iff [OF sample_strip(10)]
  scene_heading_iff [OF sample_strip(11)]
  transition_iff [OF sample_strip(3)] transition_iff [OF sample_strip(4)]
  transition_iff [OF sample_strip(5)] transition_iff [OF sample_strip(6)]
  transition_iff [OF sample_strip(7)] transition_iff [OF sample_strip(8)]
  transition_iff [OF sample_strip(9)] transition_iff [OF sample_strip(10)]
  sample_heading_re sample_transition_re sample_cue

lemmas parser_defs = parse_fountain_text_def parse_line_def initial_state_def finish_def
  truthy_def flush_eq action_text_def

lemma sample_splitlines:
  "splitlines ''INT. A\<newline>Hi.\<newline>\<newline>BO\<newline>Yes.\<newline>EXT. B\<newline>Go.'' =
     [''INT. A'', ''Hi.'', [], ''BO'', ''Yes.'', ''EXT. B'', ''Go.'']"
  "splitlines ''Hi.'' = [''Hi.'']"
  "splitlines ''INT. A\<newline>Hi.\<newline>TO:\<newline>Go.'' = [''INT. A'', ''Hi.'', ''TO:'', ''Go.'']"
  "splitlines ''INT/EXT. KITCHEN - DAY\<newline>Hi.'' = [''INT/EXT. KITCHEN - DAY'', ''Hi.'']"
  "splitlines ''INT. A\<newline>BO\<newline>AL\<newline>Hi.'' = [''INT. A'', ''BO'', ''AL'', ''Hi.'']"
  by (simp_all add: splitlines_def is_linebreak_def code_def CR_def LF_def)

lemma sample_parse:
  "parse_fountain_text ''INT. A\<newline>Hi.\<newline>\<newline>BO\<newline>Yes.\<newline>EXT. B\<newline>Go.'' =
     [\<lparr>scene_number = 1, scene_heading = ''INT. A'',
        beats = [(Action, ''Hi.''), (Dialogue, ''BO: Yes.'')], characters = {''BO''}\<rparr>,
      \<lparr>scene_number = 2, scene_heading = ''EXT. B'', beats = [(Action, ''Go.'')], characters = {}\<rparr>]"
  by (simp add: parser_defs sample_splitlines sample_lines Let_def)

section \<open>Sample schemas\<close>

lemma catalog_normalize:
  "normalize ''Scene #'' = ''scene #''" "normalize ''Scene'' = ''scene''"
  "normalize ''Scene No'' = ''scene no''" "normalize ''Scene Number'' = ''scene number''"
  "normalize ''Scene Heading'' = ''scene heading''" "normalize ''Heading'' = ''heading''"
  "normalize ''Slugline'' = ''slugline''"
  "normalize ''Beat/Action'' = ''beat/action''" "normalize ''Beat'' = ''beat''"
  "normalize ''Action'' = ''action''" "normalize ''Description'' = ''description''"
  "normalize ''What Happens'' = ''what happens''"
  "normalize ''Shot #'' = ''shot #''" "normalize ''Shot Number'' = ''shot number''"
  "normalize ''Shot'' = ''shot''"
  "normalize ''Shot Type'' = ''shot type''" "normalize ''Type'' = ''type''"
  "normalize ''Angle'' = ''angle''"
  "normalize ''Movement'' = ''movement''" "normalize ''Move'' = ''move''"
  "normalize ''Lens'' = ''lens''"
  "normalize ''Duration (s)'' = ''duration (s)''" "normalize ''Duration'' = ''duration''"
  "normalize ''Est. Duration (s)'' = ''est. duration (s)''"
  "normalize ''Location'' = ''location''"
  "normalize ''Characters'' = ''characters''" "normalize ''Cast'' = ''cast''"
  "normalize ''Notes'' = ''notes''"
  by (simp_all add: string_defs char_defs)

lemma resolve_fields_Cons:
  "resolve_fields ((l, aliases) # rest) columns col_map =
     resolve_fields rest (snd (resolve_field l aliases columns))
       (col_map(l \<mapsto> fst (resolve_field l aliases columns)))"
  by (simp add: split_beta)

lemmas resolver_defs = resolve_columns_def possible_map_def resolve_fields_Cons resolve_field_def
  truthy_def Let_def catalog_normalize

lemma resolve_empty:
  "snd (resolve_columns []) =
     [''Scene #'', ''Scene Heading'', ''Beat/Action'', ''Shot #'', ''Shot Type'', ''Angle'',
      ''Movement'', ''Lens'', ''Duration (s)'', ''Location'', ''Characters'', ''Notes'']"
  by (simp add: resolver_defs del: resolve_fields.simps(2))

lemma resolve_shot_type:
  "fst (resolve_columns [''Type'', ''Shot'']) ''Shot #'' = Some ''Shot''"
  "fst (resolve_columns [''Type'', ''Shot'']) ''Shot Type'' = Some ''Type''"
  by (simp_all add: resolver_defs del: resolve_fields.simps(2))

lemma resolve_shot:
  "fst (resolve_columns [''Shot'']) ''Shot #'' = Some ''Shot''"
  by (simp add: resolver_defs del: resolve_fields.simps(2))

section \<open>The claims\<close>

text \<open>
  C1. For every document text and every target schema, the builder returns a table for
  the parser's scenes, and the number of its rows is the number of beats of all those
  scenes together: one row for each beat.
\<close>

theorem row_count_is_beat_count:
  "map_option (\<lambda>df. length (df_rows df))
     (build_shotlist_from_scenes (parse_fountain_text text) columns) =
   Some (sum_list (map (\<lambda>sc. length (beats sc)) (parse_fountain_text text)))"
  using build_total [of "parse_fountain_text text" columns] by auto

theorem row_count_is_beat_count_witness:
  "map_option (\<lambda>df. length (df_rows df))
     (build_shotlist_from_scenes
        (parse_fountain_text ''INT. A\<newline>Hi.\<newline>\<newline>BO\<newline>Yes.\<newline>EXT. B\<newline>Go.'') [''Shot'']) =
   Some 3"
proof -
  have "sum_list (map (\<lambda>sc. length (beats sc))
      (parse_fountain_text ''INT. A\<newline>Hi.\<newline>\<newline>BO\<newline>Yes.\<newline>EXT. B\<newline>Go.'')) = 3"
    by (simp add: sample_parse)
  then show ?thesis
    using row_count_is_beat_count
      [of "''INT. A\<newline>Hi.\<newline>\<newline>BO\<newline>Yes.\<newline>EXT. B\<newline>Go.''" "[''Shot'']"]
    by (simp only:)
qed

text \<open>
  C2. In the rows the builder produces, the cell of the column resolved for Shot # is 1
  for the first beat of every scene and one more for each further beat of that scene,
  whatever the numbers in the other scenes.
\<close>

theorem shot_numbers_restart_per_scene:
  "\<exists>df c. build_shotlist_from_scenes scs columns = Some df \<and>
     fst (resolve_columns columns) ''Shot #'' = Some c \<and>
     map (\<lambda>row. row c) (df_rows df) =
       concat (map (\<lambda>sc. map (\<lambda>n. Some (Num n)) [1..int (length (beats sc))]) scs)"
proof -
  from build_total [of scs columns] obtain rows where
    b: "build_shotlist_from_scenes scs columns =
          Some \<lparr>df_columns = uniq_from {} (snd (resolve_columns columns)), df_rows = rows\<rparr>" and
    r: "scene_rows (fst (resolve_columns columns)) (uniq_from {} (snd (resolve_columns columns))) scs =
          Some rows"
    by blast
  from col_map_defined [of "''Shot #''" columns] obtain c where
    c: "fst (resolve_columns columns) ''Shot #'' = Some c"
    by (auto simp: fields_eq)
  from scene_rows_shot [OF c r] b c show ?thesis by simp
qed

theorem shot_numbers_restart_per_scene_witness:
  "\<exists>df. build_shotlist_from_scenes
       (parse_fountain_text ''INT. A\<newline>Hi.\<newline>\<newline>BO\<newline>Yes.\<newline>EXT. B\<newline>Go.'') [''Shot''] = Some df \<and>
     map (\<lambda>row. row ''Shot'') (df_rows df) = [Some (Num 1), Some (Num 2), Some (Num 1)]"
  using shot_numbers_restart_per_scene
    [of "parse_fountain_text ''INT. A\<newline>Hi.\<newline>\<newline>BO\<newline>Yes.\<newline>EXT. B\<newline>Go.''" "[''Shot'']"]
  by (auto simp: sample_parse resolve_shot upto_rec1)

text \<open>
  C6. For every target schema, two different logical fields of the catalog resolve to two
  different output columns (and each of the twelve fields resolves to a column).
\<close>

theorem col_map_injective:
  "l1 \<in> set (map fst possible_map) \<Longrightarrow> l2 \<in> set (map fst possible_map) \<Longrightarrow> l1 \<noteq> l2 \<Longrightarrow>
   \<exists>c1 c2. fst (resolve_columns columns) l1 = Some c1 \<and>
           fst (resolve_columns columns) l2 = Some c2 \<and> c1 \<noteq> c2"
  using col_map_defined [of l1 columns] col_map_defined [of l2 columns]
    col_map_distinct [of l1 l2 columns]
  by auto

theorem col_map_injective_witness:
  "''Shot #'' \<in> set (map fst possible_map) \<and> ''Shot Type'' \<in> set (map fst possible_map) \<and>
   ''Shot #'' \<noteq> ''Shot Type'' \<and>
   fst (resolve_columns [''Type'', ''Shot'']) ''Shot #'' = Some ''Shot'' \<and>
   fst (resolve_columns [''Type'', ''Shot'']) ''Shot Type'' = Some ''Type'' \<and> ''Shot'' \<noteq> ''Type''"
  using col_map_injective [of "''Shot #''" "''Shot Type''" "[''Type'', ''Shot'']"]
  by (simp add: fields_eq resolve_shot_type)

text \<open>
  C9. Against an empty target schema the output columns are the twelve names of the
  catalog, in the order of the catalog.
\<close>

theorem empty_schema_columns:
  "map_option df_columns (build_shotlist_from_scenes scs []) =
     Some [''Scene #'', ''Scene Heading'', ''Beat/Action'', ''Shot #'', ''Shot Type'', ''Angle'',
       ''Movement'', ''Lens'', ''Duration (s)'', ''Location'', ''Characters'', ''Notes'']"
proof -
  from build_total [of scs "[]"] obtain rows where
    "build_shotlist_from_scenes scs [] =
       Some \<lparr>df_columns = uniq_from {} (snd (resolve_columns [])), df_rows = rows\<rparr>"
    by blast
  then show ?thesis by (simp add: resolve_empty)
qed

theorem empty_schema_columns_witness:
  "map_option df_columns (build_shotlist_from_scenes
     (parse_fountain_text ''INT. A\<newline>Hi.\<newline>\<newline>BO\<newline>Yes.\<newline>EXT. B\<newline>Go.'') []) =
     Some [''Scene #'', ''Scene Heading'', ''Beat/Action'', ''Shot #'', ''Shot Type'', ''Angle'',
       ''Movement'', ''Lens'', ''Duration (s)'', ''Location'', ''Characters'', ''Notes'']"
  using empty_schema_columns
    [of "parse_fountain_text ''INT. A\<newline>Hi.\<newline>\<newline>BO\<newline>Yes.\<newline>EXT. B\<newline>Go.''"]
  by simp

lemma find_append_Some: "find P xs = Some x \<Longrightarrow> find P (xs @ ys) = Some x"
  by (induction xs) (auto split: if_splits)

lemma normalize_Nil: "normalize [] = []"
  by (simp add: normalize_def strip_def lstrip_def rstrip_def lower_def)

lemma canonical_normalize_nonempty:
  "(l, aliases) \<in> set possible_map \<Longrightarrow> normalize l \<noteq> []"
  by (auto simp: possible_map_def catalog_normalize)

lemma resolve_field_canonical:
  assumes "find (\<lambda>c. normalize c = normalize l) columns = Some c" and "normalize l \<noteq> []"
  shows "fst (resolve_field l (l # rest) (columns @ ext)) = c"
proof -
  from assms(1) have "normalize c = normalize l"
    by (auto simp: find_Some_iff)
  with assms(2) have "c \<noteq> []" using normalize_Nil by auto
  moreover have "scan_columns l (columns @ ext) None = Some c"
    by (simp add: scan_columns_find find_append_Some [OF assms(1)])
  ultimately show ?thesis
    by (simp add: resolve_field_def truthy_def)
qed

text \<open>
  C5 (as the code has it). The canonical name of a logical field is the first alias
  tried, the one of highest priority: when the target schema has a column equal, after
  trimming and lower-casing, to the canonical name of a field, the first such column is the
  one resolved for that field, whether or not another column matches one of its other
  aliases.
\<close>

theorem canonical_name_first:
  assumes "(l, aliases) \<in> set possible_map"
    and "find (\<lambda>c. normalize c = normalize l) columns = Some c"
  shows "fst (resolve_columns columns) l = Some c"
proof -
  from resolve_fields_lookup [OF possible_map_distinct assms(1), of columns Map.empty]
  obtain ext where e: "fst (resolve_columns columns) l =
      Some (fst (resolve_field l aliases (columns @ ext)))"
    by (auto simp: resolve_columns_def)
  from possible_map_canonical [OF assms(1)] obtain rest where "aliases = l # rest" by blast
  with e resolve_field_canonical [OF assms(2) canonical_normalize_nonempty [OF assms(1)]]
  show ?thesis by simp
qed

theorem canonical_name_first_witness:
  "(''Scene #'', [''Scene #'', ''Scene'', ''Scene No'', ''Scene Number'']) \<in> set possible_map \<and>
   find (\<lambda>c. normalize c = normalize ''Scene #'') [''Scene'', '' scene # ''] = Some '' scene # '' \<and>
   fst (resolve_columns [''Scene'', '' scene # '']) ''Scene #'' = Some '' scene # ''"
proof -
  have n: "normalize '' scene # '' = ''scene #''"
    by (simp add: string_defs char_defs)
  have m: "(''Scene #'', [''Scene #'', ''Scene'', ''Scene No'', ''Scene Number'']) \<in> set possible_map"
    by (simp add: possible_map_def)
  have f: "find (\<lambda>c. normalize c = normalize ''Scene #'') [''Scene'', '' scene # ''] = Some '' scene # ''"
    by (simp add: n catalog_normalize)
  from canonical_name_first [OF m f] m f show ?thesis by simp
qed

text \<open>
  C5 as stated fails: with the columns Scene and Scene # in the schema, the field Scene #
  resolves to the column of its canonical name, not to the column of its alias Scene.
\<close>

theorem canonical_name_last_counterexample:
  "(''Scene #'', [''Scene #'', ''Scene'', ''Scene No'', ''Scene Number'']) \<in> set possible_map \<and>
   fst (resolve_columns [''Scene'', ''Scene #'']) ''Scene #'' = Some ''Scene #'' \<and>
   fst (resolve_columns [''Scene'', ''Scene #'']) ''Scene #'' \<noteq> Some ''Scene''"
  by (simp add: resolver_defs del: resolve_fields.simps(2))

lemma map_int_upt: "map int [1..<Suc n] = [1..int n]"
proof (induction n)
  case 0
  show ?case by simp
next
  case (Suc n)
  have "[1..int (Suc n)] = [1..int n] @ [int n + 1]"
    using upto_rec2 [of 1 "int n + 1"] by (simp add: add.commute)
  with Suc show ?case by simp
qed

lemma parse_no_heading: "heading_lines text = [] \<Longrightarrow> parse_fountain_text text = []"
  using parse_numbers [of "text"] by simp

text \<open>
  C7. When N lines of a document are recognized as scene headings, the parser returns N
  scenes, numbered 1 to N, in the order of those lines (each scene bears the trimmed text
  of its heading line); with no such line it returns no scene and the builder no row.
\<close>

theorem scene_numbers_sequential:
  "map scene_number (parse_fountain_text text) = [1..int (length (heading_lines text))] \<and>
   length (parse_fountain_text text) = length (heading_lines text) \<and>
   map scene_heading (parse_fountain_text text) =
     map (\<lambda>raw. strip (rstrip_newline raw)) (heading_lines text) \<and>
   (heading_lines text = [] \<longrightarrow>
      parse_fountain_text text = [] \<and>
      map_option df_rows (build_shotlist_from_scenes (parse_fountain_text text) columns) = Some [])"
proof -
  have n: "map scene_number (parse_fountain_text text) = [1..int (length (heading_lines text))]"
    by (simp only: parse_numbers map_int_upt)
  have l: "length (parse_fountain_text text) = length (heading_lines text)"
    using arg_cong [OF parse_headings [of "text"], of length] by simp
  have z: "map_option df_rows (build_shotlist_from_scenes [] columns) = Some []"
    using build_total [of "[]" columns] by auto
  from n l z parse_headings [of "text"] parse_no_heading [of "text"] show ?thesis by auto
qed

theorem scene_numbers_sequential_witness:
  "heading_lines ''INT. A\<newline>Hi.\<newline>\<newline>BO\<newline>Yes.\<newline>EXT. B\<newline>Go.'' = [''INT. A'', ''EXT. B''] \<and>
   map scene_number
     (parse_fountain_text ''INT. A\<newline>Hi.\<newline>\<newline>BO\<newline>Yes.\<newline>EXT. B\<newline>Go.'') = [1, 2] \<and>
   heading_lines ''Hi.'' = [] \<and> parse_fountain_text ''Hi.'' = [] \<and>
   map_option df_rows (build_shotlist_from_scenes (parse_fountain_text ''Hi.'') [''Shot'']) = Some []"
proof -
  have a: "heading_lines ''INT. A\<newline>Hi.\<newline>\<newline>BO\<newline>Yes.\<newline>EXT. B\<newline>Go.'' = [''INT. A'', ''EXT. B'']"
    by (simp add: heading_lines_def sample_splitlines sample_lines)
  have b: "heading_lines ''Hi.'' = []"
    by (simp add: heading_lines_def sample_splitlines sample_lines)
  from scene_numbers_sequential
      [of "''INT. A\<newline>Hi.\<newline>\<newline>BO\<newline>Yes.\<newline>EXT. B\<newline>Go.''" "[''Shot'']"]
    scene_numbers_sequential [of "''Hi.''" "[''Shot'']"] a b
  show ?thesis by (auto simp: upto_rec1)
qed

text \<open>
  C8. Every beat of every scene the parser returns has text that is not empty after
  trimming (so no Action or Dialogue beat has empty text), and flushing an action buffer
  whose lines are all blank after trimming adds no beat.
\<close>

theorem beats_never_blank:
  "(\<forall>sc\<in>set (parse_fountain_text text). \<forall>(kind, t)\<in>set (beats sc). t \<noteq> [] \<and> strip t \<noteq> []) \<and>
   ((\<forall>l\<in>set buf. strip l = []) \<longrightarrow> beats (fst (flush_action_as_beat sc buf)) = beats sc)"
proof -
  have s: "strip [] = []" by (simp add: strip_Nil_iff)
  have "\<forall>sc\<in>set (parse_fountain_text text). \<forall>(kind, t)\<in>set (beats sc). t \<noteq> [] \<and> strip t \<noteq> []"
    using parse_nonblank [of "text"] s by fastforce
  moreover have "(\<forall>l\<in>set buf. strip l = []) \<longrightarrow>
      beats (fst (flush_action_as_beat sc buf)) = beats sc"
    by (simp add: flush_eq action_text_blank)
  ultimately show ?thesis by blast
qed

theorem beats_never_blank_witness:
  "(Dialogue, ''BO: Yes.'') \<in> set (beats (hd (parse_fountain_text
      ''INT. A\<newline>Hi.\<newline>\<newline>BO\<newline>Yes.\<newline>EXT. B\<newline>Go.''))) \<and>
   strip ''BO: Yes.'' \<noteq> [] \<and> strip ''  '' = [] \<and> strip [] = [] \<and>
   beats (fst (flush_action_as_beat
     \<lparr>scene_number = 1, scene_heading = ''INT. A'', beats = [], characters = {}\<rparr> [''  '', []])) = []"
proof -
  have b: "strip ''  '' = []" "strip [] = []"
    by (simp_all add: strip_def lstrip_def rstrip_def isspace_def code_def)
  from beats_never_blank
    [of "''INT. A\<newline>Hi.\<newline>\<newline>BO\<newline>Yes.\<newline>EXT. B\<newline>Go.''" "[''  '', []]"
      "\<lparr>scene_number = 1, scene_heading = ''INT. A'', beats = [], characters = {}\<rparr>"] b
  show ?thesis by (simp add: sample_parse)
qed

lemma make_row_location:
  assumes "make_row (fst (resolve_columns columns)) uniq_cols sc k beat = Some row"
    and "fst (resolve_columns columns) ''Location'' = Some c"
  shows "row c = Some (Str (location (scene_heading sc)))"
proof -
  let ?cm = "fst (resolve_columns columns)"
  have d: "\<And>l. l \<in> set (map fst possible_map) \<Longrightarrow> l \<noteq> ''Location'' \<Longrightarrow> ?cm l \<noteq> Some c"
    using col_map_distinct [of _ "''Location''" columns] assms(2) by (simp add: fields_eq)
  have "?cm ''Characters'' \<noteq> Some c" "?cm ''Notes'' \<noteq> Some c"
    by (rule d, simp add: fields_eq, simp)+
  with assms show ?thesis
    by (auto simp: make_row_def Let_def split: Option.bind_splits)
qed

lemma beat_rows_location:
  assumes "fst (resolve_columns columns) ''Location'' = Some c"
  shows "beat_rows (fst (resolve_columns columns)) uniq_cols sc k bs = Some rows \<Longrightarrow>
         map (\<lambda>row. row c) rows = map (\<lambda>b. Some (Str (location (scene_heading sc)))) bs"
proof (induction bs arbitrary: k rows)
  case Nil
  then show ?case by simp
next
  case (Cons b bs)
  from Cons.prems obtain row more where
    row: "make_row (fst (resolve_columns columns)) uniq_cols sc k b = Some row" and
    more: "beat_rows (fst (resolve_columns columns)) uniq_cols sc (k + 1) bs = Some more" and
    rows: "rows = row # more"
    by (auto split: Option.bind_splits)
  from Cons.IH [OF more] make_row_location [OF row assms] rows show ?case by simp
qed

lemma scene_rows_location:
  assumes "fst (resolve_columns columns) ''Location'' = Some c"
  shows "scene_rows (fst (resolve_columns columns)) uniq_cols scs = Some rows \<Longrightarrow>
         map (\<lambda>row. row c) rows =
           concat (map (\<lambda>sc. map (\<lambda>b. Some (Str (location (scene_heading sc)))) (beats sc)) scs)"
proof (induction scs arbitrary: rows)
  case Nil
  then show ?case by simp
next
  case (Cons sc scs)
  from Cons.prems obtain first more where
    first: "beat_rows (fst (resolve_columns columns)) uniq_cols sc 1 (beats sc) = Some first" and
    more: "scene_rows (fst (resolve_columns columns)) uniq_cols scs = Some more" and
    rows: "rows = first @ more"
    by (auto split: Option.bind_splits)
  from beat_rows_location [OF assms first] Cons.IH [OF more] rows show ?case by simp
qed

lemma location_cells:
  "\<exists>df c. build_shotlist_from_scenes scs columns = Some df \<and>
     fst (resolve_columns columns) ''Location'' = Some c \<and>
     map (\<lambda>row. row c) (df_rows df) =
       concat (map (\<lambda>sc. map (\<lambda>b. Some (Str (location (scene_heading sc)))) (beats sc)) scs)"
proof -
  from build_total [of scs columns] obtain rows where
    b: "build_shotlist_from_scenes scs columns =
          Some \<lparr>df_columns = uniq_from {} (snd (resolve_columns columns)), df_rows = rows\<rparr>" and
    r: "scene_rows (fst (resolve_columns columns)) (uniq_from {} (snd (resolve_columns columns))) scs =
          Some rows"
    by blast
  from col_map_defined [of "''Location''" columns] obtain c where
    c: "fst (resolve_columns columns) ''Location'' = Some c"
    by (auto simp: fields_eq)
  from scene_rows_location [OF c r] b c show ?thesis by simp
qed

lemma sample_location:
  "location ''INT/EXT. KITCHEN - DAY'' = ''/EXT. KITCHEN''"
  "location ''INT. KITCHEN - DAY'' = ''KITCHEN''"
  by (simp_all add: location_def location_prefix_def hyphen_def scene_type_def re_defs
      strip_def lstrip_def rstrip_def char_defs Let_def)

lemma resolve_location_empty: "fst (resolve_columns []) ''Location'' = Some ''Location''"
  by (simp add: resolver_defs del: resolve_fields.simps(2))

lemma sample_parse_int_ext:
  "parse_fountain_text ''INT/EXT. KITCHEN - DAY\<newline>Hi.'' =
     [\<lparr>scene_number = 1, scene_heading = ''INT/EXT. KITCHEN - DAY'',
        beats = [(Action, ''Hi.'')], characters = {}\<rparr>]"
  by (simp add: parser_defs sample_splitlines sample_lines Let_def)

text \<open>
  C3 at the heading INT/EXT. KITCHEN - DAY: the parser takes the line for a scene heading,
  and the Location cell of its row is /EXT. KITCHEN. The alternative INT of the pattern
  matches first and nothing after it can fail, so the alternative INT/EXT is never tried
  and only INT is removed.
\<close>

theorem location_of_int_ext_heading:
  "is_scene_heading ''INT/EXT. KITCHEN - DAY'' \<and>
   location ''INT/EXT. KITCHEN - DAY'' = ''/EXT. KITCHEN'' \<and>
   (\<exists>df. build_shotlist_from_scenes
            (parse_fountain_text ''INT/EXT. KITCHEN - DAY\<newline>Hi.'') [] = Some df \<and>
         map (\<lambda>row. row ''Location'') (df_rows df) = [Some (Str ''/EXT. KITCHEN'')])"
  using location_cells [of "parse_fountain_text ''INT/EXT. KITCHEN - DAY\<newline>Hi.''" "[]"]
  by (auto simp: sample_lines sample_location sample_parse_int_ext resolve_location_empty)

lemma transition_not_cue: "is_transition line \<Longrightarrow> \<not> is_character_cue line"
  using strip_idem [of line] by (simp add: is_character_cue_def is_transition_def Let_def)

lemma transition_nonblank: "is_transition line \<Longrightarrow> strip line \<noteq> []"
  using sample_transition_re by (auto simp: is_transition_def)

lemma bare_to_line:
  assumes "strip line = ''TO:''"
  shows "\<not> is_scene_heading line" "\<not> is_transition line" "\<not> is_character_cue line"
  using sample_heading_re sample_transition_re sample_character_re
  by (simp_all add: scene_heading_iff [OF assms] transition_iff [OF assms]
      character_cue_iff [OF assms])

text \<open>
  C4 (as the code has it). Inside an open scene with no active speaker, a line that is
  not a scene heading and whose trimmed content matches the transition pattern (one or more
  capital letters, spaces or tabs, then TO:) flushes the pending action buffer: its joined
  text, when not empty, becomes an Action beat, the buffer is emptied, and the line adds no
  text of its own. A line whose trimmed content is exactly TO: does not match the pattern:
  it is appended to the action buffer as action text.
\<close>

theorem transition_line_flushes:
  assumes "current_scene st = Some sc" and "truthy (current_character st) = None"
  shows "(\<not> is_scene_heading (rstrip_newline raw) \<and> is_transition (rstrip_newline raw) \<longrightarrow>
            parse_line st raw =
              st\<lparr>current_scene := Some (fst (flush_action_as_beat sc (buffer_action st))),
                 buffer_action := []\<rparr> \<and>
            beats (fst (flush_action_as_beat sc (buffer_action st))) =
              beats sc @ (if action_text (buffer_action st) \<noteq> []
                          then [(Action, action_text (buffer_action st))] else [])) \<and>
         (strip (rstrip_newline raw) = ''TO:'' \<longrightarrow>
            parse_line st raw = st\<lparr>buffer_action := buffer_action st @ [rstrip_newline raw]\<rparr>)"
proof (intro conjI impI)
  assume t: "\<not> is_scene_heading (rstrip_newline raw) \<and> is_transition (rstrip_newline raw)"
  with transition_not_cue transition_nonblank
  have "\<not> is_character_cue (rstrip_newline raw)" "strip (rstrip_newline raw) \<noteq> []" by auto
  with t assms show "parse_line st raw =
      st\<lparr>current_scene := Some (fst (flush_action_as_beat sc (buffer_action st))),
         buffer_action := []\<rparr>"
    by (simp add: parse_line_def Let_def flush_eq)
  show "beats (fst (flush_action_as_beat sc (buffer_action st))) =
      beats sc @ (if action_text (buffer_action st) \<noteq> []
                  then [(Action, action_text (buffer_action st))] else [])"
    by (simp add: flush_eq)
next
  assume b: "strip (rstrip_newline raw) = ''TO:''"
  from bare_to_line [OF b] b assms
  show "parse_line st raw = st\<lparr>buffer_action := buffer_action st @ [rstrip_newline raw]\<rparr>"
    by (simp add: parse_line_def Let_def)
qed

theorem transition_line_flushes_witness:
  "\<not> is_scene_heading (rstrip_newline ''CUT TO:'') \<and> is_transition (rstrip_newline ''CUT TO:'') \<and>
   parse_line
     \<lparr>scenes = [],
      current_scene = Some \<lparr>scene_number = 1, scene_heading = ''INT. A'', beats = [], characters = {}\<rparr>,
      buffer_action = [''Hi.''], current_character = None\<rparr> ''CUT TO:'' =
     \<lparr>scenes = [],
      current_scene = Some \<lparr>scene_number = 1, scene_heading = ''INT. A'',
        beats = [(Action, ''Hi.'')], characters = {}\<rparr>,
      buffer_action = [], current_character = None\<rparr> \<and>
   strip (rstrip_newline ''TO:'') = ''TO:'' \<and>
   parse_line
     \<lparr>scenes = [],
      current_scene = Some \<lparr>scene_number = 1, scene_heading = ''INT. A'', beats = [], characters = {}\<rparr>,
      buffer_action = [''Hi.''], current_character = None\<rparr> ''TO:'' =
     \<lparr>scenes = [],
      current_scene = Some \<lparr>scene_number = 1, scene_heading = ''INT. A'', beats = [], characters = {}\<rparr>,
      buffer_action = [''Hi.'', ''TO:''], current_character = None\<rparr>"
proof -
  let ?sc = "\<lparr>scene_number = 1, scene_heading = ''INT. A'', beats = [], characters = {}\<rparr>"
  let ?st = "\<lparr>scenes = [], current_scene = Some ?sc, buffer_action = [''Hi.''],
    current_character = None\<rparr>"
  have a: "current_scene ?st = Some ?sc" by simp
  have b: "truthy (current_character ?st) = None" by (simp add: truthy_def)
  from transition_line_flushes [OF a b, of "''CUT TO:''"]
    transition_line_flushes [OF a b, of "''TO:''"]
  show ?thesis
    by (simp add: sample_lines transition_iff [OF sample_strip(9)] flush_eq action_text_def)
qed

text \<open>
  C4 as stated fails: after the heading INT. A and the action line Hi., the line TO: is
  not a transition; it flushes nothing and joins the buffer, and the document ends with
  the single Action beat Hi. TO: Go.
\<close>

theorem bare_to_line_counterexample:
  "strip (rstrip_newline ''TO:'') = ''TO:'' \<and> \<not> is_transition ''TO:'' \<and>
   parse_line
     \<lparr>scenes = [],
      current_scene = Some \<lparr>scene_number = 1, scene_heading = ''INT. A'', beats = [], characters = {}\<rparr>,
      buffer_action = [''Hi.''], current_character = None\<rparr> ''TO:'' =
     \<lparr>scenes = [],
      current_scene = Some \<lparr>scene_number = 1, scene_heading = ''INT. A'', beats = [], characters = {}\<rparr>,
      buffer_action = [''Hi.'', ''TO:''], current_character = None\<rparr> \<and>
   parse_fountain_text ''INT. A\<newline>Hi.\<newline>TO:\<newline>Go.'' =
     [\<lparr>scene_number = 1, scene_heading = ''INT. A'',
        beats = [(Action, ''Hi. TO: Go.'')], characters = {}\<rparr>]"
  by (simp add: parser_defs sample_splitlines sample_lines Let_def)

lemma parse_line_speaker_scene:
  "(current_scene st = None \<longrightarrow> current_character st = None) \<Longrightarrow>
   current_scene (parse_line st raw) = None \<longrightarrow> current_character (parse_line st raw) = None"
  by (auto simp: parse_line_def Let_def flush_eq split: option.splits if_splits)

lemma foldl_speaker_scene:
  "(current_scene st = None \<longrightarrow> current_character st = None) \<Longrightarrow>
   current_scene (foldl parse_line st ls) = None \<longrightarrow>
   current_character (foldl parse_line st ls) = None"
proof (induction ls arbitrary: st)
  case Nil
  then show ?case by simp
next
  case (Cons raw ls)
  from Cons.IH [OF parse_line_speaker_scene [OF Cons.prems]] show ?case by simp
qed

lemma speaker_has_scene:
  assumes "truthy (current_character (foldl parse_line initial_state ls)) = Some speaker"
  shows "\<exists>sc. current_scene (foldl parse_line initial_state ls) = Some sc"
proof -
  have "current_scene initial_state = None \<longrightarrow> current_character initial_state = None"
    by (simp add: initial_state_def)
  from foldl_speaker_scene [OF this, of ls] assms show ?thesis
    by (cases "current_scene (foldl parse_line initial_state ls)") (auto simp: truthy_def)
qed

lemma sample_speaker_state:
  "foldl parse_line initial_state [''INT. A'', ''BO''] =
     \<lparr>scenes = [],
      current_scene = Some \<lparr>scene_number = 1, scene_heading = ''INT. A'', beats = [],
        characters = {''BO''}\<rparr>,
      buffer_action = [], current_character = Some ''BO''\<rparr>"
  by (simp add: parser_defs sample_lines Let_def)

text \<open>
  C10 (as the code has it). When a speaker is active, a non-blank line that is neither a
  scene heading nor a character cue is emitted as the Dialogue beat of the speaker, a
  colon, a space and the trimmed line, whether or not it matches the transition pattern:
  the transition test is reached only with no active speaker. The state is any state the
  parser reaches from the start; it has an open scene.
\<close>

theorem speaker_line_is_dialogue:
  assumes "st = foldl parse_line initial_state ls"
    and "truthy (current_character st) = Some speaker"
    and "strip (rstrip_newline raw) \<noteq> []"
    and "\<not> is_scene_heading (rstrip_newline raw)"
    and "\<not> is_character_cue (rstrip_newline raw)"
  shows "\<exists>sc. current_scene st = Some sc \<and>
           parse_line st raw =
             st\<lparr>current_scene := Some (sc\<lparr>beats := beats sc @
               [(Dialogue, speaker @ '': '' @ strip (rstrip_newline raw))]\<rparr>)\<rparr>"
proof -
  from speaker_has_scene [of ls speaker] assms(1,2) obtain sc where
    sc: "current_scene st = Some sc" by auto
  with assms(2-5) have "parse_line st raw =
      st\<lparr>current_scene := Some (sc\<lparr>beats := beats sc @
        [(Dialogue, speaker @ '': '' @ strip (rstrip_newline raw))]\<rparr>)\<rparr>"
    by (simp add: parse_line_def Let_def)
  with sc show ?thesis by blast
qed

theorem speaker_line_is_dialogue_witness:
  "truthy (current_character (foldl parse_line initial_state [''INT. A'', ''BO''])) = Some ''BO'' \<and>
   strip (rstrip_newline ''CUT TO:'') \<noteq> [] \<and>
   \<not> is_scene_heading (rstrip_newline ''CUT TO:'') \<and>
   \<not> is_character_cue (rstrip_newline ''CUT TO:'') \<and>
   is_transition (rstrip_newline ''CUT TO:'') \<and>
   parse_line (foldl parse_line initial_state [''INT. A'', ''BO'']) ''CUT TO:'' =
     \<lparr>scenes = [],
      current_scene = Some \<lparr>scene_number = 1, scene_heading = ''INT. A'',
        beats = [(Dialogue, ''BO: CUT TO:'')], characters = {''BO''}\<rparr>,
      buffer_action = [], current_character = Some ''BO''\<rparr>"
proof -
  have a: "truthy (current_character (foldl parse_line initial_state [''INT. A'', ''BO''])) = Some ''BO''"
    unfolding sample_speaker_state by (simp add: truthy_def)
  have b: "strip (rstrip_newline ''CUT TO:'') \<noteq> []"
    "\<not> is_scene_heading (rstrip_newline ''CUT TO:'')"
    "\<not> is_character_cue (rstrip_newline ''CUT TO:'')"
    "is_transition (rstrip_newline ''CUT TO:'')"
    by (simp_all add: sample_lines transition_iff [OF sample_strip(9)])
  from speaker_line_is_dialogue [OF refl a b(1) b(2) b(3)] a b
  show ?thesis unfolding sample_speaker_state by (auto simp: sample_lines)
qed

text \<open>
  C10 as stated fails: with the speaker BO active, the non-blank line AL is a character
  cue; it replaces the speaker and no Dialogue beat is emitted for it.
\<close>

theorem speaker_line_counterexample:
  "truthy (current_character (foldl parse_line initial_state [''INT. A'', ''BO''])) = Some ''BO'' \<and>
   strip (rstrip_newline ''AL'') \<noteq> [] \<and>
   parse_line (foldl parse_line initial_state [''INT. A'', ''BO'']) ''AL'' =
     \<lparr>scenes = [],
      current_scene = Some \<lparr>scene_number = 1, scene_heading = ''INT. A'', beats = [],
        characters = {''AL'', ''BO''}\<rparr>,
      buffer_action = [], current_character = Some ''AL''\<rparr> \<and>
   parse_fountain_text ''INT. A\<newline>BO\<newline>AL\<newline>Hi.'' =
     [\<lparr>scene_number = 1, scene_heading = ''INT. A'',
        beats = [(Dialogue, ''AL: Hi.'')], characters = {''AL'', ''BO''}\<rparr>]"
  by (simp add: parser_defs sample_splitlines sample_lines Let_def)

end
